theory Spec2Isabelle
  imports Main "HOL-Library.Sublist"
begin

section \<open>Python string primitives used by the service\<close>

text \<open>
  The service (\<^verbatim>\<open>mk.py\<close>) is glue around library calls on strings:
  \<^verbatim>\<open>sep.join(xs)\<close>, \<^verbatim>\<open>s.replace(old, new)\<close>, \<^verbatim>\<open>str(n)\<close> inside an f-string and
  \<^verbatim>\<open>re.sub(pattern, "", s, flags=re.DOTALL)\<close>. Each one is given here as an executable
  function on \<^typ>\<open>string\<close>, following the documented behaviour of the Python
  standard library.
\<close>

subsection \<open>\<^verbatim>\<open>sep.join(xs)\<close>\<close>

fun join :: "string \<Rightarrow> string list \<Rightarrow> string" where
  "join sep [] = []"
| "join sep [x] = x"
| "join sep (x # y # ys) = x @ sep @ join sep (y # ys)"

subsection \<open>\<^verbatim>\<open>str(n)\<close> for a non-negative integer\<close>

definition digit_char :: "nat \<Rightarrow> char" where
  "digit_char d = char_of (48 + d)"

function str_nat :: "nat \<Rightarrow> string" where
  "str_nat n = (if n < 10 then [digit_char n] else str_nat (n div 10) @ [digit_char (n mod 10)])"
  by pat_completeness auto
termination
  by (relation "measure id") auto

declare str_nat.simps [simp del]

text \<open>The f-string \<^verbatim>\<open>f"[{index}]"\<close> of the citation loop.\<close>

definition marker :: "nat \<Rightarrow> string" where
  "marker index = ''['' @ str_nat index @ '']''"

subsection \<open>\<^verbatim>\<open>s.replace(old, new)\<close>\<close>

text \<open>
  \<^verbatim>\<open>str.replace\<close> without a count scans the string from the left and replaces every
  non-overlapping occurrence of \<^verbatim>\<open>old\<close>. With an empty \<^verbatim>\<open>old\<close> it inserts \<^verbatim>\<open>new\<close> before
  every character and at the end (\<^verbatim>\<open>"ab".replace("", "-") == "-a-b-"\<close>).
\<close>

fun replace_empty :: "string \<Rightarrow> string \<Rightarrow> string" where
  "replace_empty new [] = new"
| "replace_empty new (c # cs) = new @ c # replace_empty new cs"

function replace_scan :: "string \<Rightarrow> string \<Rightarrow> string \<Rightarrow> string" where
  "replace_scan old new [] = []"
| "replace_scan old new (c # cs) =
     (if old \<noteq> [] \<and> prefix old (c # cs)
      then new @ replace_scan old new (drop (length old) (c # cs))
      else c # replace_scan old new cs)"
  by pat_completeness auto
termination
  by (relation "measure (\<lambda>(old, new, s). length s)") auto

definition replace :: "string \<Rightarrow> string \<Rightarrow> string \<Rightarrow> string" where
  "replace old new s = (if old = [] then replace_empty new s else replace_scan old new s)"

text \<open>The number of positions of \<open>s\<close> at which \<open>a\<close> occurs (overlaps counted).\<close>

fun count_occ :: "string \<Rightarrow> string \<Rightarrow> nat" where
  "count_occ a [] = (if a = [] then 1 else 0)"
| "count_occ a (c # cs) = (if prefix a (c # cs) then 1 else 0) + count_occ a cs"

section \<open>Request models\<close>

text \<open>
  \<^verbatim>\<open>URLRequest.urls\<close> has the type \<^verbatim>\<open>Union[List[str], str]\<close>: a request body that passed
  type validation carries either one string or a list of strings. The field validator
  \<^verbatim>\<open>ensure_list\<close> runs on that value.
\<close>

datatype urls_field = Single string | Many "string list"

fun ensure_list :: "urls_field \<Rightarrow> string list" where
  "ensure_list (Single v) = [v]"
| "ensure_list (Many v) = v"

record URLRequest =
  urls :: "string list"

definition validate_URLRequest :: "urls_field \<Rightarrow> URLRequest" where
  "validate_URLRequest v = \<lparr>urls = ensure_list v\<rparr>"

record QuestionRequest =
  question :: string

section \<open>Exceptions and the outside world\<close>

text \<open>
  Every exception the service can meet is a value. \<open>HTTPException\<close> is the one the
  service raises itself; \<open>TypeError\<close> is what \<^verbatim>\<open>re.sub\<close> raises when the crawler's
  \<^verbatim>\<open>markdown\<close> is \<^verbatim>\<open>None\<close>; \<open>IndexError\<close> and \<open>AttributeError\<close> come from
  \<^verbatim>\<open>messages[0].content[0].text\<close>; \<open>FileNotFoundError\<close> from \<^verbatim>\<open>open(file_path, "rb")\<close>;
  \<open>LibraryError\<close> stands for anything raised inside the crawler or the remote client.
\<close>

datatype exn =
    HTTPException nat string
  | TypeError
  | IndexError
  | AttributeError
  | FileNotFoundError string
  | LibraryError string

type_synonym files = "string \<rightharpoonup> string"

text \<open>
  The local collaborators, taken as parameters: \<open>crawler_run h url\<close> is
  \<^verbatim>\<open>crawler.run(url).markdown\<close> (an optional string, or the exception raised),
  \<open>exn_str h e\<close> is Python's \<^verbatim>\<open>str(e)\<close>, and \<open>mktemp h fs\<close> is the name
  \<^verbatim>\<open>tempfile.NamedTemporaryFile\<close> picks on the file system \<open>fs\<close>.
\<close>

record host =
  crawler_run :: "string \<Rightarrow> exn + string option"
  exn_str :: "exn \<Rightarrow> string"
  mktemp :: "files \<Rightarrow> string"

section \<open>Content acquisition: \<^verbatim>\<open>scrape_urls\<close>\<close>

subsection \<open>The two boilerplate patterns and \<^verbatim>\<open>re.sub\<close>\<close>

text \<open>
  Both patterns have the shape \<^verbatim>\<open>A.*?B\<close> with literal \<open>A\<close> and \<open>B\<close> (in the first one
  \<^verbatim>\<open>\*\<close> and \<^verbatim>\<open>\.\<close> are the escaped literal characters), and \<^verbatim>\<open>re.DOTALL\<close> lets the dot
  match every character. A pattern is kept as the pair \<open>(A, B)\<close>.
\<close>

type_synonym pattern = "string \<times> string"

definition patterns :: "pattern list" where
  "patterns =
     [(''##  Subscribe to our emails'', ''* Opens in a new window.''),
      (''Skip to content'', ''View cart Check out  Continue shopping'')]"

text \<open>
  \<open>after_first B s\<close>: what follows the first occurrence of \<open>B\<close> in \<open>s\<close>, the
  place where the lazy \<^verbatim>\<open>.*?B\<close> stops. \<open>match_at A B s\<close>: the rest of \<open>s\<close> after a
  match of \<^verbatim>\<open>A.*?B\<close> that starts at the head of \<open>s\<close>.
\<close>

fun after_first :: "string \<Rightarrow> string \<Rightarrow> string option" where
  "after_first B [] = (if B = [] then Some [] else None)"
| "after_first B (c # cs) =
     (if prefix B (c # cs) then Some (drop (length B) (c # cs)) else after_first B cs)"

definition match_at :: "string \<Rightarrow> string \<Rightarrow> string \<Rightarrow> string option" where
  "match_at A B s = (if prefix A s then after_first B (drop (length A) s) else None)"

text \<open>
  \<^verbatim>\<open>re.sub(pattern, "", s, flags=re.DOTALL)\<close>: scan from the left; at the leftmost
  position with a match delete the match and go on behind it; otherwise keep the
  character. An empty match (possible only for \<open>A = B = []\<close>) deletes nothing and the
  scan moves on by one character.
\<close>

function re_sub :: "string \<Rightarrow> string \<Rightarrow> string \<Rightarrow> string" where
  "re_sub A B [] = []"
| "re_sub A B (c # cs) =
     (case match_at A B (c # cs) of
        None \<Rightarrow> c # re_sub A B cs
      | Some rest \<Rightarrow>
          if length rest < length (c # cs) then re_sub A B rest else c # re_sub A B cs)"
  by pat_completeness auto
termination
  by (relation "measure (\<lambda>(A, B, s). length s)") auto

text \<open>The inner loop \<^verbatim>\<open>for pattern in patterns: content = re.sub(...)\<close>.\<close>

definition clean :: "string \<Rightarrow> string" where
  "clean content = foldl (\<lambda>content (A, B). re_sub A B content) content patterns"

subsection \<open>The scraping loop\<close>

text \<open>The body of the \<^verbatim>\<open>try\<close> block for one URL.\<close>

definition scrape_one :: "host \<Rightarrow> string \<Rightarrow> exn + string" where
  "scrape_one h url =
     (case crawler_run h url of
        Inl e \<Rightarrow> Inl e
      | Inr None \<Rightarrow> Inl TypeError
      | Inr (Some content) \<Rightarrow> Inr (clean content))"

fun scrape_loop :: "host \<Rightarrow> string list \<Rightarrow> string list \<Rightarrow> exn + string list" where
  "scrape_loop h scraped_contents [] = Inr scraped_contents"
| "scrape_loop h scraped_contents (url # rest) =
     (case scrape_one h url of
        Inl e \<Rightarrow> Inl (HTTPException 500 (''Failed to scrape '' @ url @ '': '' @ exn_str h e))
      | Inr content \<Rightarrow> scrape_loop h (scraped_contents @ [content]) rest)"

definition separator :: string where
  "separator = ''\<newline>\<newline>---\<newline>\<newline>''"

definition scrape_urls :: "host \<Rightarrow> string list \<Rightarrow> files \<Rightarrow> (exn + string) \<times> files" where
  "scrape_urls h url_list fs =
     (case scrape_loop h [] url_list of
        Inl e \<Rightarrow> (Inl e, fs)
      | Inr scraped_contents \<Rightarrow>
          (let combined_content = join separator scraped_contents;
               temp_file_path = mktemp h fs
           in (Inr temp_file_path, fs(temp_file_path \<mapsto> combined_content))))"

section \<open>The hosted question-answering platform\<close>

text \<open>
  The remote platform is a black box with state \<open>'r\<close>. Every call of the OpenAI client
  that the service makes is a field of the record \<open>client\<close>: it takes the remote state
  and gives the value returned or the exception raised, with the remote state the call
  leaves behind. Objects the service only reads an \<^verbatim>\<open>id\<close> from carry that id alone.
\<close>

record assistant =
  assistant_id :: string

record vector_store =
  vector_store_id :: string

record file_batch =
  status :: string

record thread =
  thread_id :: string

record run =
  run_id :: string

record file_object =
  filename :: string

text \<open>
  An annotation of the answer: its literal \<^verbatim>\<open>text\<close>, and the \<^verbatim>\<open>file_id\<close> of its
  \<^verbatim>\<open>file_citation\<close> when it has that attribute (a file-path annotation has none).
\<close>

record annotation =
  ann_text :: string
  file_citation :: "string option"

record text_content =
  val :: string
  annotations :: "annotation list"

datatype content_block = TextBlock text_content | OtherBlock

record message =
  content :: "content_block list"

record assistant_params =
  name :: string
  description :: string
  instructions :: string
  model :: string
  tools :: "string list"

record 'r client =
  assistants_create :: "assistant_params \<Rightarrow> 'r \<Rightarrow> (exn + assistant) \<times> 'r"
  vector_stores_create :: "string \<Rightarrow> 'r \<Rightarrow> (exn + vector_store) \<times> 'r"
  upload_and_poll :: "string \<Rightarrow> string list \<Rightarrow> 'r \<Rightarrow> (exn + file_batch) \<times> 'r"
  assistants_update :: "string \<Rightarrow> string list \<Rightarrow> 'r \<Rightarrow> (exn + assistant) \<times> 'r"
  assistants_retrieve :: "string \<Rightarrow> 'r \<Rightarrow> (exn + assistant) \<times> 'r"
  vector_stores_retrieve :: "string \<Rightarrow> 'r \<Rightarrow> (exn + vector_store) \<times> 'r"
  threads_create :: "string \<Rightarrow> 'r \<Rightarrow> (exn + thread) \<times> 'r"
  runs_create_and_poll :: "string \<Rightarrow> string \<Rightarrow> 'r \<Rightarrow> (exn + run) \<times> 'r"
  messages_list :: "string \<Rightarrow> string \<Rightarrow> 'r \<Rightarrow> (exn + message list) \<times> 'r"
  files_retrieve :: "string \<Rightarrow> 'r \<Rightarrow> (exn + file_object) \<times> 'r"

text \<open>
  Sequencing of remote calls: the second call runs on the state the first one left, and
  an exception of the first ends the sequence there.
\<close>

definition and_then ::
  "('r \<Rightarrow> (exn + 'a) \<times> 'r) \<Rightarrow> ('a \<Rightarrow> 'r \<Rightarrow> (exn + 'b) \<times> 'r) \<Rightarrow> 'r \<Rightarrow> (exn + 'b) \<times> 'r" where
  "and_then m f r = (case m r of (Inl e, r') \<Rightarrow> (Inl e, r') | (Inr x, r') \<Rightarrow> f x r')"

definition local_step :: "exn + 'a \<Rightarrow> 'r \<Rightarrow> (exn + 'a) \<times> 'r" where
  "local_step x r = (x, r)"

section \<open>Corpus assembly: \<^verbatim>\<open>create_assistant_and_vectorstore\<close>\<close>

definition assistant_config :: assistant_params where
  "assistant_config =
     \<lparr>name = ''Question-Answer Assistant'',
      description =
        ''\<newline>    You are the question answer bot who answers the user'' @
        ''\<newline>    question with precise response by using only the vectorstore's content'' @
        ''\<newline>    '',
      instructions =
        ''\<newline>    Answer only from the stored content, in case if you couldn't'' @
        ''\<newline>    find the answer say that you couldn't found the answer'' @
        ''\<newline>    '',
      model = ''gpt-4o-mini'',
      tools = [''file_search'']\<rparr>"

definition open_rb :: "files \<Rightarrow> string \<Rightarrow> exn + string" where
  "open_rb fs file_path =
     (case fs file_path of None \<Rightarrow> Inl (FileNotFoundError file_path) | Some data \<Rightarrow> Inr data)"

definition create_assistant_and_vectorstore ::
  "'r client \<Rightarrow> files \<Rightarrow> string \<Rightarrow> 'r \<Rightarrow> (exn + assistant \<times> vector_store) \<times> 'r" where
  "create_assistant_and_vectorstore cl fs file_path =
     and_then (assistants_create cl assistant_config) (\<lambda>assistant.
     and_then (vector_stores_create cl ''Scraped Content'') (\<lambda>vector_store.
     and_then (local_step (open_rb fs file_path)) (\<lambda>file_stream.
     and_then (upload_and_poll cl (vector_store_id vector_store) [file_stream]) (\<lambda>file_batch.
     and_then (assistants_update cl (assistant_id assistant) [vector_store_id vector_store])
       (\<lambda>assistant'. local_step (Inr (assistant', vector_store)))))))"

section \<open>Query execution: \<^verbatim>\<open>execute_rag_pipeline\<close>\<close>

text \<open>\<^verbatim>\<open>messages[0].content[0].text\<close>, with the exceptions of the two subscripts and of the
  attribute access on a block that is not text.\<close>

definition first_text :: "message list \<Rightarrow> exn + text_content" where
  "first_text messages =
     (case messages of
        [] \<Rightarrow> Inl IndexError
      | m # _ \<Rightarrow>
          (case content m of
             [] \<Rightarrow> Inl IndexError
           | TextBlock t # _ \<Rightarrow> Inr t
           | OtherBlock # _ \<Rightarrow> Inl AttributeError))"

text \<open>
  The loop \<^verbatim>\<open>for index, annotation in enumerate(annotations)\<close>. Its state is the index,
  the answer text \<^verbatim>\<open>message_content.value\<close> rewritten so far and the list \<^verbatim>\<open>citations\<close>.
\<close>

fun cite_loop ::
  "'r client \<Rightarrow> nat \<Rightarrow> annotation list \<Rightarrow> string \<Rightarrow> string list \<Rightarrow> 'r
     \<Rightarrow> (exn + string \<times> string list) \<times> 'r" where
  "cite_loop cl index [] v citations r = (Inr (v, citations), r)"
| "cite_loop cl index (annotation # rest) v citations r =
     (let v' = replace (ann_text annotation) (marker index) v in
      case file_citation annotation of
        None \<Rightarrow> cite_loop cl (Suc index) rest v' citations r
      | Some file_id \<Rightarrow>
          (case files_retrieve cl file_id r of
             (Inl e, r') \<Rightarrow> (Inl e, r')
           | (Inr cited_file, r') \<Rightarrow>
               cite_loop cl (Suc index) rest v'
                 (citations @ [marker index @ '' '' @ filename cited_file]) r'))"

text \<open>
  The first half of \<^verbatim>\<open>execute_rag_pipeline\<close> (up to \<^verbatim>\<open>message_content = ...\<close>): create
  the thread, run the assistant on it, list the messages of the run and take the text
  of the first one.
\<close>

definition fetch_message_content ::
  "'r client \<Rightarrow> string \<Rightarrow> assistant \<Rightarrow> 'r \<Rightarrow> (exn + text_content) \<times> 'r" where
  "fetch_message_content cl question_text assistant =
     and_then (threads_create cl question_text) (\<lambda>thread.
     and_then (runs_create_and_poll cl (thread_id thread) (assistant_id assistant)) (\<lambda>run.
     and_then (messages_list cl (thread_id thread) (run_id run)) (\<lambda>messages.
     local_step (first_text messages))))"

definition execute_rag_pipeline ::
  "'r client \<Rightarrow> string \<Rightarrow> assistant \<Rightarrow> vector_store \<Rightarrow> 'r \<Rightarrow> (exn + string) \<times> 'r" where
  "execute_rag_pipeline cl question_text assistant vector_store =
     and_then (fetch_message_content cl question_text assistant) (\<lambda>message_content.
     and_then (cite_loop cl 0 (annotations message_content) (val message_content) [])
       (\<lambda>(v, citations).
          local_step (Inr (v @ ''\<newline>\<newline>'' @ join ''\<newline>'' citations))))"

section \<open>The two endpoints\<close>

record upsert_response =
  message_text :: string
  response_assistant_id :: string
  response_vector_store_id :: string

text \<open>
  \<^verbatim>\<open>scrape_and_upsert\<close>: every exception of the body, the \<open>HTTPException\<close> of
  \<^verbatim>\<open>scrape_urls\<close> included, is caught and raised again as
  \<^verbatim>\<open>HTTPException(status_code=500, detail=str(e))\<close>. The result carries the file system
  and the remote state the request leaves.
\<close>

definition scrape_and_upsert ::
  "host \<Rightarrow> 'r client \<Rightarrow> URLRequest \<Rightarrow> files \<Rightarrow> 'r \<Rightarrow> (exn + upsert_response) \<times> files \<times> 'r" where
  "scrape_and_upsert h cl request fs r =
     (case scrape_urls h (urls request) fs of
        (Inl e, fs') \<Rightarrow> (Inl (HTTPException 500 (exn_str h e)), fs', r)
      | (Inr md_file_path, fs') \<Rightarrow>
          (case create_assistant_and_vectorstore cl fs' md_file_path r of
             (Inl e, r') \<Rightarrow> (Inl (HTTPException 500 (exn_str h e)), fs', r')
           | (Inr (assistant, vector_store), r') \<Rightarrow>
               (Inr \<lparr>message_text =
                       ''Successfully scraped content from '' @ str_nat (length (urls request)) @
                       '' URLs and created assistant and vector store.'',
                     response_assistant_id = assistant_id assistant,
                     response_vector_store_id = vector_store_id vector_store\<rparr>,
                fs', r')))"

definition ask_question ::
  "host \<Rightarrow> 'r client \<Rightarrow> QuestionRequest \<Rightarrow> string \<Rightarrow> string \<Rightarrow> 'r \<Rightarrow> (exn + string) \<times> 'r" where
  "ask_question h cl request a_id vs_id r =
     (case and_then (assistants_retrieve cl a_id) (\<lambda>assistant.
           and_then (vector_stores_retrieve cl vs_id) (\<lambda>vector_store.
           execute_rag_pipeline cl (question request) assistant vector_store)) r of
        (Inl e, r') \<Rightarrow> (Inl (HTTPException 500 (exn_str h e)), r')
      | (Inr answer, r') \<Rightarrow> (Inr answer, r'))"

section \<open>A concrete host and platform\<close>

text \<open>
  A small executable instance of the collaborators, on which the theorems below are
  evaluated. The crawler knows two pages, one URL whose result has no markdown and fails
  everywhere else; \<open>str(e)\<close> renders an \<open>HTTPException\<close> as \<^verbatim>\<open>"<status>: <detail>"\<close>.
  The platform's state is the log of the calls it received; a call whose name is in
  \<open>failing\<close> raises.
\<close>

fun demo_str :: "exn \<Rightarrow> string" where
  "demo_str (HTTPException code detail) = str_nat code @ '': '' @ detail"
| "demo_str TypeError = ''expected string or bytes-like object''"
| "demo_str IndexError = ''list index out of range''"
| "demo_str AttributeError = ''object has no attribute text''"
| "demo_str (FileNotFoundError p) = ''No such file or directory: '' @ p"
| "demo_str (LibraryError m) = m"

definition demo_host :: host where
  "demo_host =
     \<lparr>crawler_run = (\<lambda>url.
        if url = ''https://a.example'' then Inr (Some ''Alpha page'')
        else if url = ''https://b.example'' then Inr (Some ''Beta page'')
        else if url = ''https://none.example'' then Inr None
        else Inl (LibraryError ''connection refused'')),
      exn_str = demo_str,
      mktemp = (\<lambda>fs. ''/tmp/tmpq3.md'')\<rparr>"

definition demo_call :: "string list \<Rightarrow> string \<Rightarrow> 'a \<Rightarrow> string list \<Rightarrow> (exn + 'a) \<times> string list" where
  "demo_call failing nm x r =
     (if nm \<in> set failing then Inl (LibraryError (nm @ '' failed'')) else Inr x, r @ [nm])"

definition demo_client :: "string list \<Rightarrow> message list \<Rightarrow> string list client" where
  "demo_client failing msgs =
     \<lparr>assistants_create = (\<lambda>p. demo_call failing ''assistants.create'' \<lparr>assistant_id = ''asst_1''\<rparr>),
      vector_stores_create = (\<lambda>n. demo_call failing ''vector_stores.create'' \<lparr>vector_store_id = ''vs_1''\<rparr>),
      upload_and_poll = (\<lambda>v fs. demo_call failing ''upload_and_poll'' \<lparr>status = ''completed''\<rparr>),
      assistants_update = (\<lambda>a vs. demo_call failing ''assistants.update'' \<lparr>assistant_id = a\<rparr>),
      assistants_retrieve = (\<lambda>a. demo_call failing ''assistants.retrieve'' \<lparr>assistant_id = a\<rparr>),
      vector_stores_retrieve = (\<lambda>v. demo_call failing ''vector_stores.retrieve'' \<lparr>vector_store_id = v\<rparr>),
      threads_create = (\<lambda>q. demo_call failing ''threads.create'' \<lparr>thread_id = ''thread_1''\<rparr>),
      runs_create_and_poll = (\<lambda>t a. demo_call failing ''runs.create_and_poll'' \<lparr>run_id = ''run_1''\<rparr>),
      messages_list = (\<lambda>t rn. demo_call failing ''messages.list'' msgs),
      files_retrieve = (\<lambda>f. demo_call failing ''files.retrieve'' \<lparr>filename = f @ ''.md''\<rparr>)\<rparr>"

text \<open>A first message whose text has no annotation.\<close>

definition plain_message :: "message" where
  "plain_message = \<lparr>content = [TextBlock \<lparr>val = ''Paris is the capital.'', annotations = []\<rparr>]\<rparr>"

section \<open>Reference descriptions of the answer post-processing\<close>

text \<open>
  \<open>rewrite i anns v\<close> is the answer text after the citation loop has processed the
  annotations \<open>anns\<close>, the first of them with index \<open>i\<close>: one \<^verbatim>\<open>replace\<close> per
  annotation, each on the text the previous ones left.
\<close>

fun rewrite :: "nat \<Rightarrow> annotation list \<Rightarrow> string \<Rightarrow> string" where
  "rewrite i [] v = v"
| "rewrite i (a # rest) v = rewrite (Suc i) rest (replace (ann_text a) (marker i) v)"

text \<open>
  An answer text as the spec pictures it: a leading text and then, for every annotation,
  its span followed by the text up to the next span. \<open>spans_text\<close> is the part behind
  the leading text, \<open>marked_text\<close> the same with the span of annotation \<open>i\<close> replaced by
  \<^verbatim>\<open>[i]\<close>. \<open>each_once i pre segs\<close> holds when every span is non-empty and occurs exactly
  once in the text at the moment its annotation is processed (\<open>pre\<close> is the part
  rewritten so far).
\<close>

fun spans_text :: "(string \<times> string) list \<Rightarrow> string" where
  "spans_text [] = []"
| "spans_text ((a, t) # segs) = a @ t @ spans_text segs"

fun marked_text :: "nat \<Rightarrow> (string \<times> string) list \<Rightarrow> string" where
  "marked_text i [] = []"
| "marked_text i ((a, t) # segs) = marker i @ t @ marked_text (Suc i) segs"

fun each_once :: "nat \<Rightarrow> string \<Rightarrow> (string \<times> string) list \<Rightarrow> bool" where
  "each_once i pre [] = True"
| "each_once i pre ((a, t) # segs) =
     (a \<noteq> [] \<and> count_occ a (pre @ a @ t @ spans_text segs) = 1 \<and>
      each_once (Suc i) (pre @ marker i @ t) segs)"

text \<open>The indices of the annotations that carry a \<^verbatim>\<open>file_citation\<close>, in order.\<close>

fun cited_indices :: "nat \<Rightarrow> annotation list \<Rightarrow> nat list" where
  "cited_indices i [] = []"
| "cited_indices i (a # rest) =
     (case file_citation a of None \<Rightarrow> [] | Some file_id \<Rightarrow> [i]) @ cited_indices (Suc i) rest"

text \<open>The reference line \<^verbatim>\<open>f"[{index}] {cited_file.filename}"\<close> for a file-metadata table.\<close>

definition reference_line :: "(string \<Rightarrow> file_object) \<Rightarrow> nat \<times> string \<Rightarrow> string" where
  "reference_line meta = (\<lambda>(i, file_id). marker i @ '' '' @ filename (meta file_id))"

text \<open>The file metadata of the concrete platform, and three first messages.\<close>

definition demo_meta :: "string \<Rightarrow> file_object" where
  "demo_meta file_id = \<lparr>filename = file_id @ ''.md''\<rparr>"

definition cited_message :: message where
  "cited_message =
     \<lparr>content = [TextBlock
        \<lparr>val = ''Rome{a} Oslo{b}.'',
         annotations = [\<lparr>ann_text = ''{a}'', file_citation = Some ''file-a''\<rparr>,
                        \<lparr>ann_text = ''{b}'', file_citation = Some ''file-b''\<rparr>]\<rparr>]\<rparr>"

definition uncited_message :: message where
  "uncited_message =
     \<lparr>content = [TextBlock
        \<lparr>val = ''Rome{a} Oslo{b}.'',
         annotations = [\<lparr>ann_text = ''{a}'', file_citation = Some ''file-a''\<rparr>,
                        \<lparr>ann_text = ''{b}'', file_citation = None\<rparr>]\<rparr>]\<rparr>"

definition repeated_message :: message where
  "repeated_message =
     \<lparr>content = [TextBlock
        \<lparr>val = ''Rome{s} Oslo{s}.'',
         annotations = [\<lparr>ann_text = ''{s}'', file_citation = Some ''file-a''\<rparr>,
                        \<lparr>ann_text = ''{s}'', file_citation = None\<rparr>]\<rparr>]\<rparr>"

section \<open>What a match of a boilerplate pattern is\<close>

text \<open>
  The text \<open>s\<close> contains a match of \<^verbatim>\<open>A.*?B\<close> when it has an occurrence of \<open>A\<close> with an
  occurrence of \<open>B\<close> somewhere behind it. In \<open>u @ A @ m @ B @ v\<close> the span \<open>A @ m @ B\<close>
  is the match the scan finds first when no match starts further left (inside \<open>u\<close>)
  and the gap \<open>m\<close> is the shortest one that reaches an occurrence of \<open>B\<close>.
\<close>

definition contains_match :: "string \<Rightarrow> string \<Rightarrow> string \<Rightarrow> bool" where
  "contains_match A B s = (\<exists>u m v. s = u @ A @ m @ B @ v)"

definition shortest_gap :: "string \<Rightarrow> string \<Rightarrow> string \<Rightarrow> bool" where
  "shortest_gap B m v = (\<forall>m' v'. m @ B @ v = m' @ B @ v' \<longrightarrow> length m \<le> length m')"

definition leftmost_lazy_match :: "string \<Rightarrow> string \<Rightarrow> string \<Rightarrow> string \<Rightarrow> string \<Rightarrow> bool" where
  "leftmost_lazy_match A B u m v =
     ((\<forall>u' m' v'. u @ A @ m @ B @ v = u' @ A @ m' @ B @ v' \<longrightarrow> length u \<le> length u') \<and>
      shortest_gap B m v)"

text \<open>Executable counterparts, for evaluating the three notions on concrete texts.\<close>

fun has_match :: "string \<Rightarrow> string \<Rightarrow> string \<Rightarrow> bool" where
  "has_match A B [] = (match_at A B [] \<noteq> None)"
| "has_match A B (c # cs) = (match_at A B (c # cs) \<noteq> None \<or> has_match A B cs)"

fun no_match_starts_in :: "string \<Rightarrow> string \<Rightarrow> string \<Rightarrow> string \<Rightarrow> bool" where
  "no_match_starts_in A B [] w = True"
| "no_match_starts_in A B (c # u) w = (match_at A B (c # u @ w) = None \<and> no_match_starts_in A B u w)"

section \<open>Sequencing lemmas\<close>

lemma and_then_Inl: "m r = (Inl e, r') \<Longrightarrow> and_then m f r = (Inl e, r')"
  by (simp add: and_then_def)

lemma and_then_Inr: "m r = (Inr x, r') \<Longrightarrow> and_then m f r = f x r'"
  by (simp add: and_then_def)

lemma local_step_and_then: "and_then (local_step x) f r = (case x of Inl e \<Rightarrow> (Inl e, r) | Inr y \<Rightarrow> f y r)"
  by (simp add: and_then_def local_step_def split: sum.splits)

section \<open>Request validation\<close>

text \<open>
  Claim C4. A request whose \<^verbatim>\<open>urls\<close> field is the single string \<open>s\<close> is validated to
  the same URL sequence as the request whose field is the one-element list \<open>[s]\<close>, so
  the acquire-and-index endpoint behaves identically on both.
\<close>

theorem single_string_is_one_element_list:
  "ensure_list (Single s) = ensure_list (Many [s])
   \<and> validate_URLRequest (Single s) = validate_URLRequest (Many [s])
   \<and> scrape_and_upsert h cl (validate_URLRequest (Single s)) fs r =
       scrape_and_upsert h cl (validate_URLRequest (Many [s])) fs r"
  by (simp add: validate_URLRequest_def)

text \<open>
  Claim C7, as stated, fails: the validator has no emptiness check, so the empty list
  is accepted as it is and the scraping step runs on it (and writes an empty document).
\<close>

theorem empty_url_list_is_accepted:
  "urls (validate_URLRequest (Many [])) = []
   \<and> scrape_urls demo_host (urls (validate_URLRequest (Many []))) Map.empty =
       (Inr ''/tmp/tmpq3.md'', [''/tmp/tmpq3.md'' \<mapsto> []])"
  by (simp add: validate_URLRequest_def scrape_urls_def demo_host_def Let_def)

text \<open>
  Claim C7, amended. A validated request holds an ordered sequence of URL strings: a
  single string becomes the one-element sequence, a list is kept unchanged, and the
  sequence is empty exactly when the request's \<^verbatim>\<open>urls\<close> field was the empty list.
\<close>

theorem validated_urls_shape:
  "urls (validate_URLRequest (Single s)) = [s]
   \<and> urls (validate_URLRequest (Many l)) = l
   \<and> (urls (validate_URLRequest v) = []) = (v = Many [])"
  by (cases v) (simp_all add: validate_URLRequest_def)

section \<open>Content acquisition\<close>

lemma scrape_loop_all_ok:
  "map (crawler_run h) url_list = map (\<lambda>md. Inr (Some md)) mds \<Longrightarrow>
   scrape_loop h acc url_list = Inr (acc @ map clean mds)"
proof (induction url_list arbitrary: acc mds)
  case Nil
  then show ?case by simp
next
  case (Cons url rest)
  then obtain md mds' where mds: "mds = md # mds'"
    by (cases mds) auto
  with Cons.prems have "crawler_run h url = Inr (Some md)"
    and "map (crawler_run h) rest = map (\<lambda>md. Inr (Some md)) mds'"
    by auto
  then show ?case
    using Cons.IH [of mds' "acc @ [clean md]"] mds by (simp add: scrape_one_def)
qed

lemma scrape_loop_first_failure:
  "map (crawler_run h) ok = map (\<lambda>md. Inr (Some md)) mds \<Longrightarrow> scrape_one h bad = Inl e \<Longrightarrow>
   scrape_loop h acc (ok @ bad # rest) =
     Inl (HTTPException 500 (''Failed to scrape '' @ bad @ '': '' @ exn_str h e))"
proof (induction ok arbitrary: acc mds)
  case Nil
  then show ?case by simp
next
  case (Cons url ok')
  then obtain md mds' where mds: "mds = md # mds'"
    by (cases mds) auto
  with Cons.prems have "crawler_run h url = Inr (Some md)"
    and "map (crawler_run h) ok' = map (\<lambda>md. Inr (Some md)) mds'"
    by auto
  then show ?case
    using Cons.IH [of mds' "acc @ [clean md]"] Cons.prems(2) by (simp add: scrape_one_def)
qed

text \<open>
  Claim C2. When every URL of the batch is fetched successfully, the document that
  \<^verbatim>\<open>scrape_urls\<close> assembles is the cleaned per-URL texts joined by
  \<^verbatim>\<open>"\n\n---\n\n"\<close> in input order, and this document is the content of the transient
  file whose path is returned.
\<close>

theorem scrape_urls_joins_cleaned_texts:
  assumes "map (crawler_run h) url_list = map (\<lambda>md. Inr (Some md)) mds"
  shows "scrape_urls h url_list fs =
           (Inr (mktemp h fs), fs(mktemp h fs \<mapsto> join separator (map clean mds)))"
  using scrape_loop_all_ok [OF assms, of "[]"] by (simp add: scrape_urls_def Let_def)

theorem scrape_urls_joins_cleaned_texts_witness:
  "map (crawler_run demo_host) [''https://a.example'', ''https://b.example''] =
     map (\<lambda>md. Inr (Some md)) [''Alpha page'', ''Beta page'']
   \<and> scrape_urls demo_host [''https://a.example'', ''https://b.example''] Map.empty =
       (Inr ''/tmp/tmpq3.md'',
        [''/tmp/tmpq3.md'' \<mapsto> ''Alpha page\<newline>\<newline>---\<newline>\<newline>Beta page''])"
proof -
  have h: "map (crawler_run demo_host) [''https://a.example'', ''https://b.example''] =
     map (\<lambda>md. Inr (Some md)) [''Alpha page'', ''Beta page'']"
    by (simp add: demo_host_def)
  have c: "map clean [''Alpha page'', ''Beta page''] = [''Alpha page'', ''Beta page'']"
    by (simp add: clean_def patterns_def match_at_def)
  show ?thesis
    using h scrape_urls_joins_cleaned_texts [OF h, of Map.empty] c
    by (simp add: demo_host_def separator_def)
qed

text \<open>
  Claim C3. When the fetch of a URL fails (the crawler raises, or its result has no
  markdown) after the URLs before it succeeded, \<^verbatim>\<open>scrape_urls\<close> raises
  \<^verbatim>\<open>HTTPException(500, "Failed to scrape <url>: <error>")\<close> naming that URL and writes no
  file; the endpoint then fails with the rendering of that exception as its detail and
  leaves the remote state as it was, whatever the platform: no remote call is made.
\<close>

theorem scrape_failure_aborts:
  assumes "map (crawler_run h) ok = map (\<lambda>md. Inr (Some md)) mds"
    and "scrape_one h bad = Inl e"
  shows "scrape_urls h (ok @ bad # rest) fs =
           (Inl (HTTPException 500 (''Failed to scrape '' @ bad @ '': '' @ exn_str h e)), fs)
       \<and> scrape_and_upsert h cl \<lparr>urls = ok @ bad # rest\<rparr> fs r =
           (Inl (HTTPException 500 (exn_str h
              (HTTPException 500 (''Failed to scrape '' @ bad @ '': '' @ exn_str h e)))), fs, r)"
  using scrape_loop_first_failure [OF assms, of "[]" rest]
  by (simp add: scrape_urls_def scrape_and_upsert_def)

theorem scrape_failure_aborts_witness:
  "map (crawler_run demo_host) [''https://a.example''] = map (\<lambda>md. Inr (Some md)) [''Alpha page'']
   \<and> scrape_one demo_host ''https://x.example'' = Inl (LibraryError ''connection refused'')
   \<and> scrape_urls demo_host ([''https://a.example''] @ ''https://x.example'' # [''https://b.example'']) Map.empty =
       (Inl (HTTPException 500 ''Failed to scrape https://x.example: connection refused''), Map.empty)
   \<and> scrape_and_upsert demo_host (demo_client [] []) 
         \<lparr>urls = [''https://a.example''] @ ''https://x.example'' # [''https://b.example'']\<rparr> Map.empty [] =
       (Inl (HTTPException 500 ''500: Failed to scrape https://x.example: connection refused''),
        Map.empty, [])"
proof -
  have h1: "map (crawler_run demo_host) [''https://a.example''] =
      map (\<lambda>md. Inr (Some md)) [''Alpha page'']"
    by (simp add: demo_host_def)
  have h2: "scrape_one demo_host ''https://x.example'' = Inl (LibraryError ''connection refused'')"
    by (simp add: demo_host_def scrape_one_def)
  have s: "str_nat 500 = ''500''"
    by code_simp
  show ?thesis
    using h1 h2
      scrape_failure_aborts [OF h1 h2, of "[''https://b.example'']" Map.empty "demo_client [] []" "[]"]
    by (simp add: demo_host_def s)
qed

section \<open>Corpus assembly\<close>

lemma demo_client_fields:
  "assistants_create (demo_client failing msgs) p = demo_call failing ''assistants.create'' \<lparr>assistant_id = ''asst_1''\<rparr>"
  "vector_stores_create (demo_client failing msgs) n = demo_call failing ''vector_stores.create'' \<lparr>vector_store_id = ''vs_1''\<rparr>"
  "upload_and_poll (demo_client failing msgs) v fl = demo_call failing ''upload_and_poll'' \<lparr>status = ''completed''\<rparr>"
  "assistants_update (demo_client failing msgs) i vs = demo_call failing ''assistants.update'' \<lparr>assistant_id = i\<rparr>"
  "threads_create (demo_client failing msgs) q = demo_call failing ''threads.create'' \<lparr>thread_id = ''thread_1''\<rparr>"
  "runs_create_and_poll (demo_client failing msgs) t i = demo_call failing ''runs.create_and_poll'' \<lparr>run_id = ''run_1''\<rparr>"
  "messages_list (demo_client failing msgs) t rn = demo_call failing ''messages.list'' msgs"
  "files_retrieve (demo_client failing msgs) f = demo_call failing ''files.retrieve'' \<lparr>filename = f @ ''.md''\<rparr>"
  by (simp_all add: demo_client_def)

text \<open>
  Claim C8. Once the assistant has been created, a failure of any later remote call
  (creating the vector store, uploading the document, binding the vector store to the
  assistant) ends \<^verbatim>\<open>create_assistant_and_vectorstore\<close> with that exception, and the
  remote state it returns is the one the failing call left: no further call, hence no
  deletion or change of the resources created so far, is made. The endpoint passes the
  failure on as an \<open>HTTPException\<close> with the same remote state.
\<close>

theorem partial_failure_keeps_remote_state:
  assumes "assistants_create cl assistant_config r0 = (Inr a, r1)"
  shows "(vector_stores_create cl ''Scraped Content'' r1 = (Inl e, r2) \<longrightarrow>
            create_assistant_and_vectorstore cl fs p r0 = (Inl e, r2))
       \<and> (vector_stores_create cl ''Scraped Content'' r1 = (Inr vs, r2) \<and> fs p = Some d \<and>
          upload_and_poll cl (vector_store_id vs) [d] r2 = (Inl e, r3) \<longrightarrow>
            create_assistant_and_vectorstore cl fs p r0 = (Inl e, r3))
       \<and> (vector_stores_create cl ''Scraped Content'' r1 = (Inr vs, r2) \<and> fs p = Some d \<and>
          upload_and_poll cl (vector_store_id vs) [d] r2 = (Inr fb, r3) \<and>
          assistants_update cl (assistant_id a) [vector_store_id vs] r3 = (Inl e, r4) \<longrightarrow>
            create_assistant_and_vectorstore cl fs p r0 = (Inl e, r4))
       \<and> (scrape_urls h (urls request) fs0 = (Inr p, fs) \<and>
          create_assistant_and_vectorstore cl fs p r0 = (Inl e, r') \<longrightarrow>
            scrape_and_upsert h cl request fs0 r0 = (Inl (HTTPException 500 (exn_str h e)), fs, r'))"
  using assms
  by (simp add: create_assistant_and_vectorstore_def and_then_def local_step_def open_rb_def
      scrape_and_upsert_def)

theorem partial_failure_keeps_remote_state_witness:
  "assistants_create (demo_client [''upload_and_poll''] []) assistant_config [] =
     (Inr \<lparr>assistant_id = ''asst_1''\<rparr>, [''assistants.create''])
   \<and> vector_stores_create (demo_client [''upload_and_poll''] []) ''Scraped Content''
       [''assistants.create''] =
     (Inr \<lparr>vector_store_id = ''vs_1''\<rparr>, [''assistants.create'', ''vector_stores.create''])
   \<and> [''/tmp/tmpq3.md'' \<mapsto> ''Alpha page''] ''/tmp/tmpq3.md'' = Some ''Alpha page''
   \<and> upload_and_poll (demo_client [''upload_and_poll''] []) ''vs_1'' [''Alpha page'']
       [''assistants.create'', ''vector_stores.create''] =
     (Inl (LibraryError ''upload_and_poll failed''),
      [''assistants.create'', ''vector_stores.create'', ''upload_and_poll''])
   \<and> create_assistant_and_vectorstore (demo_client [''upload_and_poll''] [])
       [''/tmp/tmpq3.md'' \<mapsto> ''Alpha page''] ''/tmp/tmpq3.md'' [] =
     (Inl (LibraryError ''upload_and_poll failed''),
      [''assistants.create'', ''vector_stores.create'', ''upload_and_poll''])
   \<and> create_assistant_and_vectorstore (demo_client [''vector_stores.create''] [])
       [''/tmp/tmpq3.md'' \<mapsto> ''Alpha page''] ''/tmp/tmpq3.md'' [] =
     (Inl (LibraryError ''vector_stores.create failed''),
      [''assistants.create'', ''vector_stores.create''])
   \<and> create_assistant_and_vectorstore (demo_client [''assistants.update''] [])
       [''/tmp/tmpq3.md'' \<mapsto> ''Alpha page''] ''/tmp/tmpq3.md'' [] =
     (Inl (LibraryError ''assistants.update failed''),
      [''assistants.create'', ''vector_stores.create'', ''upload_and_poll'', ''assistants.update''])"
proof -
  let ?fs = "[''/tmp/tmpq3.md'' \<mapsto> ''Alpha page'']"
  have a: "assistants_create (demo_client F []) assistant_config [] =
      (Inr \<lparr>assistant_id = ''asst_1''\<rparr>, [''assistants.create''])"
    if "''assistants.create'' \<notin> set F" for F
    using that by (simp add: demo_client_fields demo_call_def)
  have a1: "assistants_create (demo_client [''upload_and_poll''] []) assistant_config [] =
      (Inr \<lparr>assistant_id = ''asst_1''\<rparr>, [''assistants.create''])"
    by (rule a) simp
  have a2: "assistants_create (demo_client [''vector_stores.create''] []) assistant_config [] =
      (Inr \<lparr>assistant_id = ''asst_1''\<rparr>, [''assistants.create''])"
    by (rule a) simp
  have a3: "assistants_create (demo_client [''assistants.update''] []) assistant_config [] =
      (Inr \<lparr>assistant_id = ''asst_1''\<rparr>, [''assistants.create''])"
    by (rule a) simp
  have u: "create_assistant_and_vectorstore (demo_client [''upload_and_poll''] [])
       ?fs ''/tmp/tmpq3.md'' [] =
     (Inl (LibraryError ''upload_and_poll failed''),
      [''assistants.create'', ''vector_stores.create'', ''upload_and_poll''])"
    using partial_failure_keeps_remote_state [OF a1,
        where vs = "\<lparr>vector_store_id = ''vs_1''\<rparr>" and fs = ?fs and p = "''/tmp/tmpq3.md''"
          and d = "''Alpha page''" and e = "LibraryError ''upload_and_poll failed''"
          and ?r2.0 = "[''assistants.create'', ''vector_stores.create'']"
          and ?r3.0 = "[''assistants.create'', ''vector_stores.create'', ''upload_and_poll'']"]
    by (simp add: demo_client_fields demo_call_def)
  have v: "create_assistant_and_vectorstore (demo_client [''vector_stores.create''] [])
       ?fs ''/tmp/tmpq3.md'' [] =
     (Inl (LibraryError ''vector_stores.create failed''),
      [''assistants.create'', ''vector_stores.create''])"
    using partial_failure_keeps_remote_state [OF a2,
        where fs = ?fs and p = "''/tmp/tmpq3.md''"
          and e = "LibraryError ''vector_stores.create failed''"
          and ?r2.0 = "[''assistants.create'', ''vector_stores.create'']"]
    by (simp add: demo_client_fields demo_call_def)
  have w: "create_assistant_and_vectorstore (demo_client [''assistants.update''] [])
       ?fs ''/tmp/tmpq3.md'' [] =
     (Inl (LibraryError ''assistants.update failed''),
      [''assistants.create'', ''vector_stores.create'', ''upload_and_poll'', ''assistants.update''])"
    using partial_failure_keeps_remote_state [OF a3,
        where vs = "\<lparr>vector_store_id = ''vs_1''\<rparr>" and fs = ?fs and p = "''/tmp/tmpq3.md''"
          and d = "''Alpha page''" and e = "LibraryError ''assistants.update failed''"
          and fb = "\<lparr>status = ''completed''\<rparr>"
          and ?r2.0 = "[''assistants.create'', ''vector_stores.create'']"
          and ?r3.0 = "[''assistants.create'', ''vector_stores.create'', ''upload_and_poll'']"
          and ?r4.0 = "[''assistants.create'', ''vector_stores.create'', ''upload_and_poll'',
            ''assistants.update'']"]
    by (simp add: demo_client_fields demo_call_def)
  show ?thesis
    using a1 u v w by (simp add: demo_client_fields demo_call_def)
qed

section \<open>Query execution\<close>

lemma demo_fetch:
  "fetch_message_content (demo_client [] (\<lparr>content = TextBlock tc # blocks\<rparr> # msgs)) q a r =
     (Inr tc, r @ [''threads.create'', ''runs.create_and_poll'', ''messages.list''])"
  by (simp add: fetch_message_content_def and_then_def local_step_def demo_client_fields
      demo_call_def first_text_def)

text \<open>
  Claim C6. For a first message with no annotation, \<^verbatim>\<open>execute_rag_pipeline\<close> returns the
  raw answer text unchanged, followed by the separator \<^verbatim>\<open>"\n\n"\<close> and an empty
  reference list; no file lookup is made.
\<close>

theorem no_annotations_answer_verbatim:
  assumes "fetch_message_content cl q a r0 = (Inr tc, r1)" and "annotations tc = []"
  shows "execute_rag_pipeline cl q a vs r0 = (Inr (val tc @ ''\<newline>\<newline>''), r1)"
  using assms by (simp add: execute_rag_pipeline_def and_then_def local_step_def)

theorem no_annotations_answer_verbatim_witness:
  "fetch_message_content (demo_client [] [plain_message]) ''capital?'' \<lparr>assistant_id = ''asst_1''\<rparr> [] =
     (Inr \<lparr>val = ''Paris is the capital.'', annotations = []\<rparr>,
      [''threads.create'', ''runs.create_and_poll'', ''messages.list''])
   \<and> annotations \<lparr>val = ''Paris is the capital.'', annotations = []\<rparr> = []
   \<and> execute_rag_pipeline (demo_client [] [plain_message]) ''capital?'' \<lparr>assistant_id = ''asst_1''\<rparr>
        \<lparr>vector_store_id = ''vs_1''\<rparr> [] =
     (Inr ''Paris is the capital.\<newline>\<newline>'',
      [''threads.create'', ''runs.create_and_poll'', ''messages.list''])"
proof -
  have f: "fetch_message_content (demo_client [] [plain_message]) ''capital?''
      \<lparr>assistant_id = ''asst_1''\<rparr> [] =
     (Inr \<lparr>val = ''Paris is the capital.'', annotations = []\<rparr>,
      [''threads.create'', ''runs.create_and_poll'', ''messages.list''])"
    unfolding plain_message_def by (simp add: demo_fetch)
  have e: "annotations \<lparr>val = ''Paris is the capital.'', annotations = []\<rparr> = []"
    by simp
  show ?thesis
    using f e no_annotations_answer_verbatim [OF f e, of "\<lparr>vector_store_id = ''vs_1''\<rparr>"]
    by simp
qed

subsection \<open>\<^verbatim>\<open>str.replace\<close>\<close>

lemma replace_scan_absent:
  "old \<noteq> [] \<Longrightarrow> count_occ old s = 0 \<Longrightarrow> replace_scan old new s = s"
  by (induction s) (auto split: if_splits)

lemma prefix_shorter:
  "prefix old (xs @ ys) \<Longrightarrow> length old \<le> length xs \<Longrightarrow> prefix old xs"
  by (metis prefix_length_prefix prefix_prefix prefix_order.order_refl)

lemma replace_scan_leftmost:
  assumes "old \<noteq> []" and "count_occ old (u @ butlast old) = 0"
  shows "replace_scan old new (u @ old @ w) = u @ new @ replace_scan old new w"
  using assms(2)
proof (induction u)
  case Nil
  from assms(1) obtain c cs where "old = c # cs"
    by (cases old) auto
  then show ?case by simp
next
  case (Cons c u')
  have "\<not> prefix old (c # u' @ old @ w)"
  proof
    assume p: "prefix old (c # u' @ old @ w)"
    have "c # u' @ old @ w = (c # u' @ butlast old) @ (last old # w)"
      using assms(1) by (simp add: append_butlast_last_id [symmetric] del: append_butlast_last_id)
    moreover have "length old \<le> length (c # u' @ butlast old)"
      by simp
    ultimately have "prefix old (c # u' @ butlast old)"
      using p prefix_shorter by metis
    with Cons.prems show False
      by (simp split: if_splits)
  qed
  moreover from Cons.prems have "count_occ old (u' @ butlast old) = 0"
    by (simp split: if_splits)
  ultimately show ?case
    using Cons.IH by simp
qed

lemma count_occ_suffix: "count_occ a w \<le> count_occ a (xs @ w)"
  by (induction xs) auto

lemma count_occ_at: "1 \<le> count_occ a (u @ a @ w)"
proof (induction u)
  case Nil
  show ?case
  proof (cases "a @ w")
    case Nil
    then show ?thesis by simp
  next
    case (Cons x xs)
    have "prefix a (a @ w)"
      by simp
    with Cons have "prefix a (x # xs)"
      by simp
    with Cons show ?thesis
      by simp
  qed
next
  case (Cons c u')
  then show ?case by simp
qed

lemma replace_scan_once:
  assumes "old \<noteq> []" and "count_occ old (u @ old @ w) = 1"
  shows "replace_scan old new (u @ old @ w) = u @ new @ w"
  using assms(2)
proof (induction u)
  case Nil
  from assms(1) obtain c cs where old: "old = c # cs"
    by (cases old) auto
  with Nil have "count_occ old (cs @ w) = 0"
    by simp
  with count_occ_suffix [of old w cs] have "count_occ old w = 0"
    by simp
  with assms(1) have "replace_scan old new w = w"
    by (rule replace_scan_absent)
  with old show ?case by simp
next
  case (Cons c u')
  have "1 \<le> count_occ old (u' @ old @ w)"
    by (rule count_occ_at)
  with Cons.prems have "\<not> prefix old (c # u' @ old @ w)" and "count_occ old (u' @ old @ w) = 1"
    by (auto split: if_splits)
  then show ?case
    using Cons.IH by simp
qed

lemma rewrite_each_once:
  "each_once i pre segs \<Longrightarrow> map ann_text anns = map fst segs \<Longrightarrow>
   rewrite i anns (pre @ spans_text segs) = pre @ marked_text i segs"
proof (induction segs arbitrary: i pre anns)
  case Nil
  then show ?case by simp
next
  case (Cons seg segs)
  obtain a t where seg: "seg = (a, t)"
    by (cases seg)
  from Cons.prems(2) seg obtain an rest where anns: "anns = an # rest"
    and an: "ann_text an = a" and rest: "map ann_text rest = map fst segs"
    by (cases anns) auto
  from Cons.prems(1) seg have a: "a \<noteq> []"
    and once: "count_occ a (pre @ a @ t @ spans_text segs) = 1"
    and later: "each_once (Suc i) (pre @ marker i @ t) segs"
    by simp_all
  have "replace a (marker i) (pre @ a @ t @ spans_text segs) = pre @ marker i @ t @ spans_text segs"
    using a replace_scan_once [OF a once] by (simp add: replace_def)
  then show ?case
    using Cons.IH [OF later rest] seg anns an by simp
qed

subsection \<open>The citation loop\<close>

lemma cite_loop_result:
  "cite_loop cl i anns v cits r = (Inr (v', cits'), r') \<Longrightarrow>
   v' = rewrite i anns v \<and>
   (\<exists>new. cits' = cits @ new \<and>
      list_all2 (\<lambda>j line. prefix (marker j @ '' '') line) (cited_indices i anns) new)"
proof (induction anns arbitrary: i v cits r)
  case Nil
  then show ?case by simp
next
  case (Cons a rest)
  show ?case
  proof (cases "file_citation a")
    case None
    with Cons.prems have "cite_loop cl (Suc i) rest (replace (ann_text a) (marker i) v) cits r =
        (Inr (v', cits'), r')"
      by (simp add: Let_def)
    from Cons.IH [OF this] None show ?thesis
      by simp
  next
    case (Some file_id)
    with Cons.prems obtain cited_file r1 where ok: "files_retrieve cl file_id r = (Inr cited_file, r1)"
      and loop: "cite_loop cl (Suc i) rest (replace (ann_text a) (marker i) v)
          (cits @ [marker i @ '' '' @ filename cited_file]) r1 = (Inr (v', cits'), r')"
      by (auto simp: Let_def split: prod.splits sum.splits)
    from Cons.IH [OF loop] obtain new where v': "v' = rewrite (Suc i) rest (replace (ann_text a) (marker i) v)"
      and new: "cits' = (cits @ [marker i @ '' '' @ filename cited_file]) @ new"
      and all: "list_all2 (\<lambda>j line. prefix (marker j @ '' '') line) (cited_indices (Suc i) rest) new"
      by blast
    have "list_all2 (\<lambda>j line. prefix (marker j @ '' '') line) (cited_indices i (a # rest))
        ((marker i @ '' '' @ filename cited_file) # new)"
      using Some all by simp
    with v' new show ?thesis
      by auto
  qed
qed

lemma length_cited_indices:
  "length (cited_indices i anns) = length (filter (\<lambda>a. file_citation a \<noteq> None) anns)"
  by (induction anns arbitrary: i) (auto split: option.splits)

lemma cite_loop_resolved:
  "map file_citation anns = map Some fids \<Longrightarrow>
   \<forall>file_id\<in>set fids. \<forall>r. fst (files_retrieve cl file_id r) = Inr (meta file_id) \<Longrightarrow>
   \<exists>r'. cite_loop cl i anns v cits r =
     (Inr (rewrite i anns v, cits @ map (reference_line meta) (enumerate i fids)), r')"
proof (induction anns arbitrary: i v cits r fids)
  case Nil
  then show ?case by simp
next
  case (Cons a rest)
  from Cons.prems(1) obtain file_id fids' where fids: "fids = file_id # fids'"
    and a: "file_citation a = Some file_id" and rest: "map file_citation rest = map Some fids'"
    by (cases fids) auto
  from Cons.prems(2) fids have "fst (files_retrieve cl file_id r) = Inr (meta file_id)"
    by simp
  then obtain r1 where ok: "files_retrieve cl file_id r = (Inr (meta file_id), r1)"
    by (cases "files_retrieve cl file_id r") auto
  from Cons.prems(2) fids
  have "\<forall>file_id\<in>set fids'. \<forall>r. fst (files_retrieve cl file_id r) = Inr (meta file_id)"
    by simp
  from Cons.IH [OF rest this, of "Suc i" "replace (ann_text a) (marker i) v"
      "cits @ [marker i @ '' '' @ filename (meta file_id)]" r1]
  show ?case
    using a ok fids by (simp add: Let_def reference_line_def)
qed

lemma execute_rag_pipeline_split:
  "fetch_message_content cl q a r0 = (Inr tc, r1) \<Longrightarrow>
   execute_rag_pipeline cl q a vs r0 =
     (case cite_loop cl 0 (annotations tc) (val tc) [] r1 of
        (Inl e, r') \<Rightarrow> (Inl e, r')
      | (Inr (v, citations), r') \<Rightarrow> (Inr (v @ ''\<newline>\<newline>'' @ join ''\<newline>'' citations), r'))"
  by (simp add: execute_rag_pipeline_def and_then_def local_step_def split: prod.splits sum.splits)

lemma marker_0: "marker 0 = ''[0]''"
  by code_simp

lemma marker_1: "marker (Suc 0) = ''[1]''"
  by code_simp

lemmas marker_values = marker_0 marker_1

lemma demo_files_retrieve:
  "files_retrieve (demo_client [] msgs) file_id r =
     (Inr (demo_meta file_id), r @ [''files.retrieve''])"
  by (simp add: demo_client_fields demo_call_def demo_meta_def)

text \<open>
  Claim C9. In a successful run of \<^verbatim>\<open>execute_rag_pipeline\<close> the answer text is rewritten
  for every annotation, with or without a \<^verbatim>\<open>file_citation\<close>, while the reference list
  has one line per annotation that carries a \<^verbatim>\<open>file_citation\<close>, in order, each starting
  with the bracket index of its annotation. So the number of reference lines is the
  number of annotations with a \<^verbatim>\<open>file_citation\<close>, at most the number of annotations,
  and smaller as soon as one annotation has none.
\<close>

theorem reference_lines_only_for_file_citations:
  assumes "fetch_message_content cl q a r0 = (Inr tc, r1)"
    and "execute_rag_pipeline cl q a vs r0 = (Inr answer, r2)"
  shows "\<exists>citations.
      answer = rewrite 0 (annotations tc) (val tc) @ ''\<newline>\<newline>'' @ join ''\<newline>'' citations
    \<and> list_all2 (\<lambda>j line. prefix (marker j @ '' '') line) (cited_indices 0 (annotations tc)) citations
    \<and> length citations = length (filter (\<lambda>a. file_citation a \<noteq> None) (annotations tc))
    \<and> length citations \<le> length (annotations tc)"
proof -
  from assms obtain v citations where loop:
    "cite_loop cl 0 (annotations tc) (val tc) [] r1 = (Inr (v, citations), r2)"
    and answer: "answer = v @ ''\<newline>\<newline>'' @ join ''\<newline>'' citations"
    by (auto simp: execute_rag_pipeline_split split: prod.splits sum.splits)
  from cite_loop_result [OF loop] have v: "v = rewrite 0 (annotations tc) (val tc)"
    and all: "list_all2 (\<lambda>j line. prefix (marker j @ '' '') line)
        (cited_indices 0 (annotations tc)) citations"
    by auto
  from all have "length citations = length (cited_indices 0 (annotations tc))"
    by (simp add: list_all2_lengthD)
  then have len: "length citations = length (filter (\<lambda>a. file_citation a \<noteq> None) (annotations tc))"
    by (simp add: length_cited_indices)
  then have "length citations \<le> length (annotations tc)"
    by simp
  with answer v all len show ?thesis
    by blast
qed

theorem reference_lines_only_for_file_citations_witness:
  "fetch_message_content (demo_client [] [uncited_message]) ''Where?'' \<lparr>assistant_id = ''asst_1''\<rparr> [] =
     (Inr \<lparr>val = ''Rome{a} Oslo{b}.'',
           annotations = [\<lparr>ann_text = ''{a}'', file_citation = Some ''file-a''\<rparr>,
                          \<lparr>ann_text = ''{b}'', file_citation = None\<rparr>]\<rparr>,
      [''threads.create'', ''runs.create_and_poll'', ''messages.list''])
   \<and> execute_rag_pipeline (demo_client [] [uncited_message]) ''Where?''
        \<lparr>assistant_id = ''asst_1''\<rparr> \<lparr>vector_store_id = ''vs_1''\<rparr> [] =
     (Inr ''Rome[0] Oslo[1].\<newline>\<newline>[0] file-a.md'',
      [''threads.create'', ''runs.create_and_poll'', ''messages.list'', ''files.retrieve''])
   \<and> (\<exists>citations.
        ''Rome[0] Oslo[1].\<newline>\<newline>[0] file-a.md'' =
          ''Rome[0] Oslo[1].'' @ ''\<newline>\<newline>'' @ join ''\<newline>'' citations
      \<and> list_all2 (\<lambda>j line. prefix (marker j @ '' '') line) [0] citations
      \<and> length citations = 1)"
proof -
  let ?tc = "\<lparr>val = ''Rome{a} Oslo{b}.'',
           annotations = [\<lparr>ann_text = ''{a}'', file_citation = Some ''file-a''\<rparr>,
                          \<lparr>ann_text = ''{b}'', file_citation = None\<rparr>]\<rparr>"
  have f: "fetch_message_content (demo_client [] [uncited_message]) ''Where?''
      \<lparr>assistant_id = ''asst_1''\<rparr> [] =
     (Inr ?tc, [''threads.create'', ''runs.create_and_poll'', ''messages.list''])"
    unfolding uncited_message_def by (simp add: demo_fetch)
  have e: "execute_rag_pipeline (demo_client [] [uncited_message]) ''Where?''
        \<lparr>assistant_id = ''asst_1''\<rparr> \<lparr>vector_store_id = ''vs_1''\<rparr> [] =
     (Inr ''Rome[0] Oslo[1].\<newline>\<newline>[0] file-a.md'',
      [''threads.create'', ''runs.create_and_poll'', ''messages.list'', ''files.retrieve''])"
    using execute_rag_pipeline_split [OF f]
    by (simp add: demo_files_retrieve demo_meta_def marker_values replace_def Let_def)
  have r: "rewrite 0 (annotations ?tc) (val ?tc) = ''Rome[0] Oslo[1].''"
    by (simp add: marker_values replace_def)
  show ?thesis
    using f e reference_lines_only_for_file_citations [OF f e] r
    by auto
qed

text \<open>
  Claim C10. The text the loop returns is \<open>rewrite\<close>: annotation \<open>i\<close> is handled by one
  \<^verbatim>\<open>replace\<close> of its literal text by \<^verbatim>\<open>[i]\<close> on the current, already rewritten text.
  That replacement is global: behind the leftmost occurrence the replacement goes on
  through the rest of the text, and a text without an occurrence is left as it is.
\<close>

theorem marker_replacement_is_global:
  "(cite_loop cl i anns v cits r = (Inr (v', cits'), r') \<longrightarrow> v' = rewrite i anns v)
   \<and> (ann_text a \<noteq> [] \<and> count_occ (ann_text a) (u @ butlast (ann_text a)) = 0 \<longrightarrow>
        rewrite i (a # rest) (u @ ann_text a @ w) =
        rewrite (Suc i) rest (u @ marker i @ replace (ann_text a) (marker i) w))
   \<and> (ann_text a \<noteq> [] \<and> count_occ (ann_text a) w = 0 \<longrightarrow>
        rewrite i (a # rest) w = rewrite (Suc i) rest w)"
  using cite_loop_result [of cl i anns v cits r v' cits' r']
    replace_scan_leftmost [of "ann_text a" u "marker i" w]
    replace_scan_absent [of "ann_text a" w "marker i"]
  by (auto simp: replace_def)

theorem marker_replacement_is_global_witness:
  "cite_loop (demo_client [] []) 0 [\<lparr>ann_text = ''{s}'', file_citation = None\<rparr>]
      ''Rome{s} Oslo{s}.'' [] [] = (Inr (''Rome[0] Oslo[0].'', []), [])
   \<and> ''{s}'' \<noteq> [] \<and> count_occ ''{s}'' (''Rome'' @ butlast ''{s}'') = 0
   \<and> rewrite 0 [\<lparr>ann_text = ''{s}'', file_citation = None\<rparr>] (''Rome'' @ ''{s}'' @ '' Oslo{s}.'') =
       ''Rome[0] Oslo[0].''
   \<and> count_occ ''{s}'' ''Rome and Oslo.'' = 0
   \<and> rewrite 0 [\<lparr>ann_text = ''{s}'', file_citation = None\<rparr>] ''Rome and Oslo.'' = ''Rome and Oslo.''"
proof -
  let ?a = "\<lparr>ann_text = ''{s}'', file_citation = None\<rparr>"
  have l: "cite_loop (demo_client [] []) 0 [?a] ''Rome{s} Oslo{s}.'' [] [] =
      (Inr (''Rome[0] Oslo[0].'', []), [])"
    by (simp add: marker_values replace_def Let_def)
  have w: "replace ''{s}'' ''[0]'' '' Oslo{s}.'' = '' Oslo[0].''"
    by (simp add: replace_def)
  show ?thesis
    using l w
      marker_replacement_is_global [of "demo_client [] []" 0 "[?a]" "''Rome{s} Oslo{s}.''" "[]" "[]"
        "''Rome[0] Oslo[0].''" "[]" "[]" ?a "''Rome''" "[]" "'' Oslo{s}.''"]
      marker_replacement_is_global [of "demo_client [] []" 0 "[?a]" "''Rome{s} Oslo{s}.''" "[]" "[]"
        "''Rome[0] Oslo[0].''" "[]" "[]" ?a "''Rome''" "[]" "''Rome and Oslo.''"]
    by (simp add: marker_values)
qed

text \<open>
  Claim C1, as stated, fails. With two annotations of the same literal text, the second
  of them without a \<^verbatim>\<open>file_citation\<close>, the rewritten answer has the marker \<^verbatim>\<open>[0]\<close> twice
  and no marker \<^verbatim>\<open>[1]\<close>, and the reference list has one line, not two.
\<close>

theorem repeated_span_breaks_marker_count:
  "execute_rag_pipeline (demo_client [] [repeated_message]) ''Where?''
      \<lparr>assistant_id = ''asst_1''\<rparr> \<lparr>vector_store_id = ''vs_1''\<rparr> [] =
     (Inr ''Rome[0] Oslo[0].\<newline>\<newline>[0] file-a.md'',
      [''threads.create'', ''runs.create_and_poll'', ''messages.list'', ''files.retrieve''])
   \<and> count_occ (marker 1) ''Rome[0] Oslo[0].\<newline>\<newline>[0] file-a.md'' = 0
   \<and> count_occ (marker 0) ''Rome[0] Oslo[0].'' = 2"
proof -
  have "fetch_message_content (demo_client [] [repeated_message]) ''Where?''
      \<lparr>assistant_id = ''asst_1''\<rparr> [] =
     (Inr \<lparr>val = ''Rome{s} Oslo{s}.'',
           annotations = [\<lparr>ann_text = ''{s}'', file_citation = Some ''file-a''\<rparr>,
                          \<lparr>ann_text = ''{s}'', file_citation = None\<rparr>]\<rparr>,
      [''threads.create'', ''runs.create_and_poll'', ''messages.list''])"
    unfolding repeated_message_def by (simp add: demo_fetch)
  from execute_rag_pipeline_split [OF this]
  show ?thesis
    by (simp add: demo_files_retrieve demo_meta_def marker_values replace_def Let_def)
qed

text \<open>
  Claim C1, amended. Let the raw answer consist of a leading text and \<open>N\<close> annotation
  spans, each followed by plain text, such that every span is non-empty and occurs
  exactly once in the text when its annotation is processed; let every annotation carry
  a \<^verbatim>\<open>file_citation\<close> whose file lookup succeeds. Then the rewritten answer is the raw
  answer with span \<open>i\<close> replaced by \<^verbatim>\<open>[i]\<close> and everything else unchanged, and the
  reference list has exactly \<open>N\<close> lines, line \<open>i\<close> being \<^verbatim>\<open>[i]\<close>, a blank and the
  resolved filename.
\<close>

theorem markers_and_references_when_spans_are_unique:
  assumes "fetch_message_content cl q a r0 = (Inr tc, r1)"
    and "val tc = t0 @ spans_text segs"
    and "map ann_text (annotations tc) = map fst segs"
    and "each_once 0 t0 segs"
    and "map file_citation (annotations tc) = map Some fids"
    and "\<forall>file_id\<in>set fids. \<forall>r. fst (files_retrieve cl file_id r) = Inr (meta file_id)"
  shows "fst (execute_rag_pipeline cl q a vs r0) =
           Inr (t0 @ marked_text 0 segs @ ''\<newline>\<newline>'' @
                join ''\<newline>'' (map (reference_line meta) (enumerate 0 fids)))
       \<and> length segs = length (annotations tc)
       \<and> length (map (reference_line meta) (enumerate 0 fids)) = length (annotations tc)"
proof -
  from cite_loop_resolved [OF assms(5,6), of 0 "val tc" "[]" r1] obtain r2 where
    "cite_loop cl 0 (annotations tc) (val tc) [] r1 =
       (Inr (rewrite 0 (annotations tc) (val tc), map (reference_line meta) (enumerate 0 fids)), r2)"
    by auto
  moreover have "rewrite 0 (annotations tc) (val tc) = t0 @ marked_text 0 segs"
    using rewrite_each_once [OF assms(4,3)] assms(2) by simp
  ultimately have "fst (execute_rag_pipeline cl q a vs r0) =
           Inr (t0 @ marked_text 0 segs @ ''\<newline>\<newline>'' @
                join ''\<newline>'' (map (reference_line meta) (enumerate 0 fids)))"
    by (simp add: execute_rag_pipeline_split [OF assms(1)])
  moreover have "length segs = length (annotations tc)"
    using assms(3) by (metis length_map)
  moreover have "length (map (reference_line meta) (enumerate 0 fids)) = length (annotations tc)"
    using assms(5) by (metis length_map length_enumerate)
  ultimately show ?thesis
    by blast
qed

theorem markers_and_references_when_spans_are_unique_witness:
  "fetch_message_content (demo_client [] [cited_message]) ''Where?'' \<lparr>assistant_id = ''asst_1''\<rparr> [] =
     (Inr \<lparr>val = ''Rome{a} Oslo{b}.'',
           annotations = [\<lparr>ann_text = ''{a}'', file_citation = Some ''file-a''\<rparr>,
                          \<lparr>ann_text = ''{b}'', file_citation = Some ''file-b''\<rparr>]\<rparr>,
      [''threads.create'', ''runs.create_and_poll'', ''messages.list''])
   \<and> ''Rome{a} Oslo{b}.'' = ''Rome'' @ spans_text [(''{a}'', '' Oslo''), (''{b}'', ''.'')]
   \<and> each_once 0 ''Rome'' [(''{a}'', '' Oslo''), (''{b}'', ''.'')]
   \<and> fst (files_retrieve (demo_client [] [cited_message]) ''file-a'' []) = Inr (demo_meta ''file-a'')
   \<and> fst (files_retrieve (demo_client [] [cited_message]) ''file-b'' []) = Inr (demo_meta ''file-b'')
   \<and> fst (execute_rag_pipeline (demo_client [] [cited_message]) ''Where?''
          \<lparr>assistant_id = ''asst_1''\<rparr> \<lparr>vector_store_id = ''vs_1''\<rparr> []) =
       Inr ''Rome[0] Oslo[1].\<newline>\<newline>[0] file-a.md\<newline>[1] file-b.md''"
proof -
  let ?tc = "\<lparr>val = ''Rome{a} Oslo{b}.'',
           annotations = [\<lparr>ann_text = ''{a}'', file_citation = Some ''file-a''\<rparr>,
                          \<lparr>ann_text = ''{b}'', file_citation = Some ''file-b''\<rparr>]\<rparr>"
  let ?segs = "[(''{a}'', '' Oslo''), (''{b}'', ''.'')]"
  have f: "fetch_message_content (demo_client [] [cited_message]) ''Where?''
      \<lparr>assistant_id = ''asst_1''\<rparr> [] =
     (Inr ?tc, [''threads.create'', ''runs.create_and_poll'', ''messages.list''])"
    unfolding cited_message_def by (simp add: demo_fetch)
  have t: "val ?tc = ''Rome'' @ spans_text ?segs"
    by simp
  have s: "map ann_text (annotations ?tc) = map fst ?segs"
    by simp
  have o: "each_once 0 ''Rome'' ?segs"
    by (simp add: marker_values)
  have c: "map file_citation (annotations ?tc) = map Some [''file-a'', ''file-b'']"
    by simp
  have l: "\<forall>file_id\<in>set [''file-a'', ''file-b''].
      \<forall>r. fst (files_retrieve (demo_client [] [cited_message]) file_id r) = Inr (demo_meta file_id)"
    by (simp add: demo_files_retrieve)
  show ?thesis
    using f o
      markers_and_references_when_spans_are_unique [OF f t s o c l,
        of "\<lparr>vector_store_id = ''vs_1''\<rparr>"]
    by (simp add: demo_files_retrieve reference_line_def demo_meta_def marker_values enumerate_eq_zip)
qed

section \<open>Boilerplate removal\<close>

lemma after_first_Some:
  "after_first B s = Some rest \<Longrightarrow> \<exists>m. s = m @ B @ rest \<and> shortest_gap B m rest"
proof (induction s)
  case Nil
  then show ?case
    by (auto simp: shortest_gap_def split: if_splits)
next
  case (Cons c cs)
  show ?case
  proof (cases "prefix B (c # cs)")
    case True
    with Cons.prems have "rest = drop (length B) (c # cs)"
      by simp
    moreover from True have "c # cs = B @ drop (length B) (c # cs)"
      by (auto simp: prefix_def)
    ultimately have "c # cs = [] @ B @ rest"
      by simp
    moreover have "shortest_gap B [] rest"
      by (simp add: shortest_gap_def)
    ultimately show ?thesis
      by blast
  next
    case False
    with Cons.prems have "after_first B cs = Some rest"
      by simp
    from Cons.IH [OF this] obtain m where cs: "cs = m @ B @ rest" and least: "shortest_gap B m rest"
      by blast
    have "shortest_gap B (c # m) rest"
      unfolding shortest_gap_def
    proof (intro allI impI)
      fix m' v'
      assume eq: "(c # m) @ B @ rest = m' @ B @ v'"
      show "length (c # m) \<le> length m'"
      proof (cases m')
        case Nil
        with eq cs have "prefix B (c # cs)"
          by (simp add: prefix_def)
        with False show ?thesis by simp
      next
        case (Cons d m'')
        with eq have "m @ B @ rest = m'' @ B @ v'"
          by simp
        with least have "length m \<le> length m''"
          by (auto simp: shortest_gap_def)
        with Cons show ?thesis by simp
      qed
    qed
    with cs show ?thesis
      by (metis append_Cons)
  qed
qed

lemma after_first_None: "after_first B s = None \<Longrightarrow> s \<noteq> m @ B @ v"
proof (induction s arbitrary: m)
  case Nil
  then show ?case by (auto split: if_splits)
next
  case (Cons c cs)
  then have np: "\<not> prefix B (c # cs)" and none: "after_first B cs = None"
    by (auto split: if_splits)
  show ?case
  proof (cases m)
    case Nil
    with np show ?thesis
      by (auto simp: prefix_def)
  next
    case (Cons d m')
    with Cons.IH [OF none, of m'] show ?thesis
      by auto
  qed
qed

lemma after_first_shortest:
  assumes "shortest_gap B m v"
  shows "after_first B (m @ B @ v) = Some v"
proof (cases "after_first B (m @ B @ v)")
  case None
  from after_first_None [OF this, of m v] show ?thesis
    by simp
next
  case (Some rest)
  from after_first_Some [OF this] obtain m0 where eq: "m @ B @ v = m0 @ B @ rest"
    and least: "shortest_gap B m0 rest"
    by blast
  from assms eq have "length m \<le> length m0"
    by (auto simp: shortest_gap_def)
  moreover from least eq have "length m0 \<le> length m"
    by (auto simp: shortest_gap_def dest: sym)
  ultimately have "length m = length m0"
    by simp
  with eq have "v = rest"
    by simp
  with Some show ?thesis
    by simp
qed

lemma match_at_None: "match_at A B s = None \<Longrightarrow> s \<noteq> A @ m @ B @ v"
  using after_first_None [of B "m @ B @ v" m v]
  by (auto simp: match_at_def split: if_splits)

lemma match_at_shortest: "shortest_gap B m v \<Longrightarrow> match_at A B (A @ m @ B @ v) = Some v"
  by (simp add: match_at_def after_first_shortest)

lemma match_at_Some: "match_at A B s = Some rest \<Longrightarrow> \<exists>m. s = A @ m @ B @ rest"
proof -
  assume a: "match_at A B s = Some rest"
  then have p: "prefix A s" and f: "after_first B (drop (length A) s) = Some rest"
    by (auto simp: match_at_def split: if_splits)
  from after_first_Some [OF f] obtain m where "drop (length A) s = m @ B @ rest"
    by blast
  moreover from p have "s = A @ drop (length A) s"
    by (auto simp: prefix_def)
  ultimately show ?thesis
    by metis
qed

lemma re_sub_no_match: "\<not> contains_match A B s \<Longrightarrow> re_sub A B s = s"
proof (induction s)
  case Nil
  then show ?case by simp
next
  case (Cons c cs)
  have "match_at A B (c # cs) = None"
  proof (cases "match_at A B (c # cs)")
    case (Some rest)
    from match_at_Some [OF this] obtain m where "c # cs = [] @ A @ m @ B @ rest"
      by auto
    with Cons.prems show ?thesis
      unfolding contains_match_def by blast
  qed simp
  moreover have "\<not> contains_match A B cs"
  proof
    assume "contains_match A B cs"
    then obtain u m v where "cs = u @ A @ m @ B @ v"
      by (auto simp: contains_match_def)
    then have "c # cs = (c # u) @ A @ m @ B @ v"
      by simp
    with Cons.prems show False
      unfolding contains_match_def by blast
  qed
  ultimately show ?case
    using Cons.IH by simp
qed

lemma re_sub_at_match:
  assumes "shortest_gap B m v"
  shows "re_sub A B (A @ m @ B @ v) = re_sub A B v"
proof (cases "A @ m @ B = []")
  case True
  then show ?thesis by simp
next
  case False
  then have shorter: "length v < length (A @ m @ B @ v)"
    by (cases A; cases m; cases B) auto
  then obtain c cs where s: "A @ m @ B @ v = c # cs"
    by (cases "A @ m @ B @ v") auto
  from match_at_shortest [OF assms, of A] s have "match_at A B (c # cs) = Some v"
    by simp
  moreover from shorter s have "length v < length (c # cs)"
    by simp
  ultimately have "re_sub A B (c # cs) = re_sub A B v"
    by simp
  with s show ?thesis
    by simp
qed

lemma re_sub_leftmost:
  "leftmost_lazy_match A B u m v \<Longrightarrow> re_sub A B (u @ A @ m @ B @ v) = u @ re_sub A B v"
proof (induction u)
  case Nil
  then show ?case
    by (simp add: leftmost_lazy_match_def re_sub_at_match)
next
  case (Cons c u)
  from Cons.prems have first: "\<forall>u' m' v'. (c # u) @ A @ m @ B @ v = u' @ A @ m' @ B @ v' \<longrightarrow>
      length (c # u) \<le> length u'" and gap: "shortest_gap B m v"
    by (simp_all add: leftmost_lazy_match_def)
  have "match_at A B (c # u @ A @ m @ B @ v) = None"
  proof (cases "match_at A B (c # u @ A @ m @ B @ v)")
    case (Some rest)
    from match_at_Some [OF this] obtain m' where "(c # u) @ A @ m @ B @ v = [] @ A @ m' @ B @ rest"
      by auto
    with first have "length (c # u) \<le> length ([]::string)"
      by blast
    then show ?thesis by simp
  qed simp
  moreover have "leftmost_lazy_match A B u m v"
    unfolding leftmost_lazy_match_def
  proof (intro conjI allI impI)
    fix u' m' v'
    assume "u @ A @ m @ B @ v = u' @ A @ m' @ B @ v'"
    then have "(c # u) @ A @ m @ B @ v = (c # u') @ A @ m' @ B @ v'"
      by simp
    with first have "length (c # u) \<le> length (c # u')"
      by blast
    then show "length u \<le> length u'"
      by simp
  qed (rule gap)
  ultimately show ?case
    using Cons.IH by simp
qed

lemma clean_two_passes:
  "clean s = re_sub ''Skip to content'' ''View cart Check out  Continue shopping''
     (re_sub ''##  Subscribe to our emails'' ''* Opens in a new window.'' s)"
  by (simp add: clean_def patterns_def)

lemma contains_match_code: "contains_match A B s = has_match A B s"
proof (induction s)
  case Nil
  show ?case
  proof
    assume "contains_match A B []"
    then have "A = []" and "B = []"
      by (auto simp: contains_match_def)
    then show "has_match A B []"
      by (simp add: match_at_def)
  next
    assume "has_match A B []"
    then obtain rest where "match_at A B [] = Some rest"
      by auto
    from match_at_Some [OF this] show "contains_match A B []"
      unfolding contains_match_def by (metis append_Nil)
  qed
next
  case (Cons c cs)
  show ?case
  proof
    assume "contains_match A B (c # cs)"
    then obtain u m v where eq: "c # cs = u @ A @ m @ B @ v"
      by (auto simp: contains_match_def)
    show "has_match A B (c # cs)"
    proof (cases u)
      case Nil
      with eq match_at_None [of A B "c # cs" m v] have "match_at A B (c # cs) \<noteq> None"
        by auto
      then show ?thesis
        by simp
    next
      case (Cons d u')
      with eq have "contains_match A B cs"
        by (auto simp: contains_match_def)
      with Cons.IH show ?thesis
        by simp
    qed
  next
    assume "has_match A B (c # cs)"
    then consider rest where "match_at A B (c # cs) = Some rest" | "has_match A B cs"
      by auto
    then show "contains_match A B (c # cs)"
    proof cases
      case 1
      from match_at_Some [OF this] show ?thesis
        unfolding contains_match_def by (metis append_Nil)
    next
      case 2
      with Cons.IH obtain u m v where "cs = u @ A @ m @ B @ v"
        by (auto simp: contains_match_def)
      then have "c # cs = (c # u) @ A @ m @ B @ v"
        by simp
      then show ?thesis
        unfolding contains_match_def by blast
    qed
  qed
qed

lemma leftmost_by_scan:
  "no_match_starts_in A B u w \<Longrightarrow> u @ w = u' @ A @ m' @ B @ v' \<Longrightarrow> length u \<le> length u'"
proof (induction u arbitrary: u')
  case Nil
  then show ?case by simp
next
  case (Cons c u)
  from Cons.prems(1) have none: "match_at A B (c # u @ w) = None"
    and later: "no_match_starts_in A B u w"
    by simp_all
  show ?case
  proof (cases u')
    case Nil
    with Cons.prems(2) match_at_None [OF none, of m' v'] show ?thesis
      by simp
  next
    case (Cons d u'')
    with Cons.prems(2) have "u @ w = u'' @ A @ m' @ B @ v'"
      by simp
    from Cons.IH [OF later this] Cons show ?thesis
      by simp
  qed
qed

lemma shortest_gap_code: "after_first B (m @ B @ v) = Some v \<Longrightarrow> shortest_gap B m v"
proof -
  assume a: "after_first B (m @ B @ v) = Some v"
  from after_first_Some [OF a] obtain m0 where eq: "m @ B @ v = m0 @ B @ v"
    and least: "shortest_gap B m0 v"
    by blast
  from eq have "m = m0"
    by simp
  with least show ?thesis
    by simp
qed

lemma leftmost_lazy_match_code:
  "no_match_starts_in A B u (A @ m @ B @ v) \<Longrightarrow> after_first B (m @ B @ v) = Some v \<Longrightarrow>
   leftmost_lazy_match A B u m v"
  unfolding leftmost_lazy_match_def
  using leftmost_by_scan [of A B u "A @ m @ B @ v"] shortest_gap_code [of B m v]
  by blast

text \<open>
  Claim C5. One pass of \<^verbatim>\<open>re.sub\<close> with a boilerplate pattern keeps the text in front of
  the leftmost match, deletes that match and goes on behind it, so exactly the matched
  spans disappear and the text around them stays as it is; a text without a match is
  returned unchanged. The cleanup step is the pass for the subscription footer followed
  by the pass for the storefront banner, and it is the identity on every text that
  contains no match of either pattern.
\<close>

theorem boilerplate_removal_keeps_surrounding_text:
  "(leftmost_lazy_match A B u m v \<longrightarrow> re_sub A B (u @ A @ m @ B @ v) = u @ re_sub A B v)
   \<and> (\<not> contains_match A B s \<longrightarrow> re_sub A B s = s)
   \<and> clean s =
       re_sub ''Skip to content'' ''View cart Check out  Continue shopping''
         (re_sub ''##  Subscribe to our emails'' ''* Opens in a new window.'' s)
   \<and> ((\<forall>(A', B') \<in> set patterns. \<not> contains_match A' B' s) \<longrightarrow> clean s = s)"
proof (intro conjI impI)
  assume "leftmost_lazy_match A B u m v"
  then show "re_sub A B (u @ A @ m @ B @ v) = u @ re_sub A B v"
    by (rule re_sub_leftmost)
next
  assume "\<not> contains_match A B s"
  then show "re_sub A B s = s"
    by (rule re_sub_no_match)
next
  show "clean s =
       re_sub ''Skip to content'' ''View cart Check out  Continue shopping''
         (re_sub ''##  Subscribe to our emails'' ''* Opens in a new window.'' s)"
    by (rule clean_two_passes)
next
  assume none: "\<forall>(A', B') \<in> set patterns. \<not> contains_match A' B' s"
  then have "\<not> contains_match ''##  Subscribe to our emails'' ''* Opens in a new window.'' s"
    and "\<not> contains_match ''Skip to content'' ''View cart Check out  Continue shopping'' s"
    by (simp_all add: patterns_def)
  then show "clean s = s"
    by (simp add: clean_two_passes re_sub_no_match)
qed

theorem boilerplate_removal_keeps_surrounding_text_witness:
  "leftmost_lazy_match ''Skip to content'' ''View cart Check out  Continue shopping''
      ''Shop. '' '' | Home | '' '' Fresh tea.''
   \<and> re_sub ''Skip to content'' ''View cart Check out  Continue shopping''
        (''Shop. '' @ ''Skip to content'' @ '' | Home | '' @
         ''View cart Check out  Continue shopping'' @ '' Fresh tea.'') = ''Shop.  Fresh tea.''
   \<and> \<not> contains_match ''##  Subscribe to our emails'' ''* Opens in a new window.'' ''Fresh tea.''
   \<and> \<not> contains_match ''Skip to content'' ''View cart Check out  Continue shopping'' ''Fresh tea.''
   \<and> re_sub ''Skip to content'' ''View cart Check out  Continue shopping'' ''Fresh tea.'' = ''Fresh tea.''
   \<and> clean ''Fresh tea.'' = ''Fresh tea.''"
proof -
  let ?A = "''Skip to content''" and ?B = "''View cart Check out  Continue shopping''"
  have l: "leftmost_lazy_match ?A ?B ''Shop. '' '' | Home | '' '' Fresh tea.''"
    by (rule leftmost_lazy_match_code) (simp_all add: match_at_def)
  have n1: "\<not> contains_match ''##  Subscribe to our emails'' ''* Opens in a new window.'' ''Fresh tea.''"
    by (simp add: contains_match_code match_at_def)
  have n2: "\<not> contains_match ?A ?B ''Fresh tea.''"
    by (simp add: contains_match_code match_at_def)
  have a: "\<forall>(A', B') \<in> set patterns. \<not> contains_match A' B' ''Fresh tea.''"
    using n1 n2 by (simp add: patterns_def)
  have r: "re_sub ?A ?B '' Fresh tea.'' = '' Fresh tea.''"
    by (simp add: match_at_def)
  note t = boilerplate_removal_keeps_surrounding_text
    [of ?A ?B "''Shop. ''" "'' | Home | ''" "'' Fresh tea.''" "''Fresh tea.''"]
  from t l have "re_sub ?A ?B (''Shop. '' @ ?A @ '' | Home | '' @ ?B @ '' Fresh tea.'') =
      ''Shop. '' @ re_sub ?A ?B '' Fresh tea.''"
    by blast
  with r have 1: "re_sub ?A ?B (''Shop. '' @ ?A @ '' | Home | '' @ ?B @ '' Fresh tea.'') =
      ''Shop.  Fresh tea.''"
    by simp
  from t n2 have 2: "re_sub ?A ?B ''Fresh tea.'' = ''Fresh tea.''"
    by blast
  from t a have 3: "clean ''Fresh tea.'' = ''Fresh tea.''"
    by blast
  from l 1 n1 n2 2 3 show ?thesis
    by blast
qed

end
